theory Spec2Isabelle
  imports Main "HOL-Library.Word"
begin

section \<open>goLogger: a structured-log fan-out layer\<close>

text \<open>
  A shallow embedding of \<^verbatim>\<open>logger.go\<close>. The package wraps a base \<^verbatim>\<open>slog.Handler\<close> in a
  \<^verbatim>\<open>customHandler\<close> that starts one goroutine per log target for every record, and runs two
  background goroutines: one that drains the error channel into the local log, gated by a
  counter, and one that lets that counter decay.

  Goroutines are modelled by an interleaving semantics: the state of the whole logger is
  one record, every goroutine has a program point, and a step runs one statement of one
  goroutine. Everything outside the package (the base handler, the network, the
  \<^verbatim>\<open>runtime\<close> and \<^verbatim>\<open>encoding/json\<close> calls) is a parameter of the model.
\<close>

subsection \<open>Go values\<close>

text \<open>
  A Go \<^verbatim>\<open>error\<close> is identified with its message; the nil error is \<open>None\<close> of
  \<open>error option\<close>. A \<^verbatim>\<open>time.Time\<close> is its seconds and nanoseconds since the epoch.
\<close>

type_synonym error = string

datatype gotime = GoTime (Unix: int) (Nanosecond: nat)

text \<open>
  The dynamically typed values (\<^verbatim>\<open>interface{}\<close>) that occur in a record's attributes and in
  the payload of the New Relic target. A \<^verbatim>\<open>slog.Value\<close> is represented by the Go value it
  holds, so \<^verbatim>\<open>a.Value.Any()\<close> is the value itself.
\<close>

datatype any =
    ANil
  | ABool bool
  | AInt int
  | AString string
  | ATime gotime
  | AError error
  | AMap "(string \<times> any) list"

text \<open>
  \<^verbatim>\<open>slog.Record\<close>: the fields the package reads. \<open>Attrs\<close> lists the attributes in the order
  in which \<^verbatim>\<open>r.Attrs\<close> visits them; slog does not remove duplicate keys.
\<close>

record slog_Record =
  Time :: gotime
  Message :: string
  Level :: int
  PC :: nat
  Attrs :: "(string \<times> any) list"

definition LevelError :: int where
  "LevelError = 8"

text \<open>Decimal printing, for \<^verbatim>\<open>fmt.Errorf("... %d", n)\<close>.\<close>

fun show_nat :: "nat \<Rightarrow> string" where
  "show_nat n =
     (if n < 10 then [char_of (48 + n)]
      else show_nat (n div 10) @ [char_of (48 + n mod 10)])"

definition show_int :: "int \<Rightarrow> string" where
  "show_int i = (if i < 0 then CHR ''-'' # show_nat (nat (- i)) else show_nat (nat i))"

subsection \<open>The error counter\<close>

text \<open>
  \<^verbatim>\<open>targetLogCounter\<close>: a Go \<^verbatim>\<open>int\<close> behind a read-write mutex. The \<^verbatim>\<open>int\<close> is taken
  at its 64-bit size, in two's complement: \<open>+\<close> and \<open>-\<close> wrap around and comparisons are
  signed. Each of the three methods holds the lock for its whole body, so each is one
  atomic step; the mutex itself has no other effect and is left out of the record.
\<close>

record targetLogCounter =
  counter :: "64 word"

definition increment :: "targetLogCounter \<Rightarrow> targetLogCounter" where
  "increment c = c\<lparr>counter := counter c + 1\<rparr>"

definition decrement :: "targetLogCounter \<Rightarrow> targetLogCounter" where
  "decrement c = c\<lparr>counter := counter c - 1\<rparr>"

definition get :: "targetLogCounter \<Rightarrow> 64 word" where
  "get c = counter c"

subsection \<open>The base handler\<close>

text \<open>
  The base handler is outside the package: \<^verbatim>\<open>New\<close> obtains it from
  \<^verbatim>\<open>slog.NewJSONHandler\<close> and the package only calls the four methods of the
  \<^verbatim>\<open>slog.Handler\<close> interface on it. It is a parameter: \<open>'h\<close> is the type of base
  handlers, \<open>'w\<close> the state of everything they write to, \<open>'wr\<close> the type of
  \<^verbatim>\<open>io.Writer\<close> values. \<open>Handle_base\<close> returns the handler's result and the state
  after its write; \<open>NewJSONHandler writer\<close> is the handler that
  \<^verbatim>\<open>slog.NewJSONHandler(writer, &slog.HandlerOptions{AddSource: true})\<close> returns. The \<^verbatim>\<open>context.Context\<close> argument is passed through unread by the
  package and is left out.
\<close>

record ('h, 'w, 'wr) slog_ops =
  Enabled_base :: "'h \<Rightarrow> int \<Rightarrow> bool"
  Handle_base :: "'h \<Rightarrow> slog_Record \<Rightarrow> 'w \<Rightarrow> error option \<times> 'w"
  WithAttrs_base :: "'h \<Rightarrow> (string \<times> any) list \<Rightarrow> 'h"
  WithGroup_base :: "'h \<Rightarrow> string \<Rightarrow> 'h"
  NewJSONHandler :: "'wr \<Rightarrow> 'h"
  Stdout :: 'wr

subsection \<open>The state of a logger\<close>

text \<open>
  \<^verbatim>\<open>customHandler\<close>. The methods have pointer receivers and \<^verbatim>\<open>WithAttrs\<close> and
  \<^verbatim>\<open>WithGroup\<close> allocate, so the structs live in a store (\<open>objects\<close> below) and a
  \<^verbatim>\<open>*customHandler\<close> is an index into it. \<open>logTargets\<close> is a slice: \<open>None\<close> is the nil
  slice. \<open>errorChannel\<close> is a reference to a channel of the store \<open>channels\<close>.
\<close>

record ('h, 't) customHandler =
  handler :: 'h
  logTargets :: "'t list option"
  errorChannel :: nat

text \<open>
  A channel of errors: its capacity and the values buffered in it. \<^verbatim>\<open>make(chan error)\<close>
  makes one of capacity 0.
\<close>

record chan =
  cap :: nat
  buf :: "error option list"

definition make_chan :: "nat \<Rightarrow> chan" where
  "make_chan n = \<lparr>cap = n, buf = []\<rparr>"

text \<open>
  The goroutines that \<^verbatim>\<open>Handle\<close> starts. Each has two program points: before
  \<^verbatim>\<open>target.SendLog(ctx, r)\<close>, and, when that call returned a non-nil error, before
  \<^verbatim>\<open>h.errorChannel <- err\<close>. A goroutine that has finished is removed. Every goroutine
  is bound to the target of its own loop iteration.
\<close>

datatype 't goroutine =
    AtSendLog 't slog_Record nat
  | AtChanSend error nat

text \<open>
  The goroutine that \<^verbatim>\<open>New\<close> starts on the error channel:
  \<^item> \<open>CRecv\<close>: at \<^verbatim>\<open>for err := range errorChannel\<close>, waiting for a value;
  \<^item> \<open>CGot err\<close>: a value was received, before \<^verbatim>\<open>if tLogCounter.get() > 5\<close>;
  \<^item> \<open>CLog err\<close>: before \<^verbatim>\<open>if err != nil { logger.Error(...)\<close>;
  \<^item> \<open>CInc\<close>: before \<^verbatim>\<open>tLogCounter.increment()\<close>.
\<close>

datatype consumer_pc = CRecv | CGot "error option" | CLog "error option" | CInc

text \<open>
  The goroutine that \<^verbatim>\<open>newTargetLogCounter\<close> starts:
  \<^item> \<open>DCheck\<close>: before \<^verbatim>\<open>if tlc.get() > 0\<close>;
  \<^item> \<open>DDec\<close>: before \<^verbatim>\<open>tlc.decrement()\<close>;
  \<^item> \<open>DSleep\<close>: in \<^verbatim>\<open>time.Sleep(1 * time.Second)\<close>.
\<close>

datatype decay_pc = DCheck | DDec | DSleep

text \<open>
  The whole logger. \<open>logger\<close> and \<open>rangeChannel\<close> are the variables \<^verbatim>\<open>logger\<close> and
  \<^verbatim>\<open>errorChannel\<close> that the closure in \<^verbatim>\<open>New\<close> captures (the \<^verbatim>\<open>slog.Logger\<close> is
  represented by the handler it wraps). \<open>calls\<close> holds the calls of \<^verbatim>\<open>Handle\<close> by the
  application that have started their goroutines (lines 65 to 74) and have not yet called
  the base handler (line 75), each with its receiver and its record; the slot of a call
  that has returned is \<open>None\<close>.
\<close>

record ('h, 't, 'w) system =
  objects :: "('h, 't) customHandler list"
  channels :: "chan list"
  world :: 'w
  goroutines :: "'t goroutine list"
  tLogCounter :: targetLogCounter
  consumer :: consumer_pc
  decay :: decay_pc
  logger :: nat
  rangeChannel :: nat
  calls :: "(nat \<times> slog_Record) option list"

subsection \<open>The methods of customHandler\<close>

text \<open>
  A method called through a pointer that is not in the store is a nil dereference: the Go
  program panics, the model returns \<open>None\<close>.
\<close>

definition Enabled ::
  "('h, 'w, 'wr) slog_ops \<Rightarrow> nat \<Rightarrow> int \<Rightarrow> ('h, 't, 'w) system \<Rightarrow> bool option" where
  "Enabled ops h level s =
     (if h < length (objects s)
      then Some (Enabled_base ops (handler (objects s ! h)) level)
      else None)"

text \<open>
  \<^verbatim>\<open>Handle\<close>: the \<^verbatim>\<open>go\<close> statements start the goroutines (\<open>spawn\<close>, lines 65 to 74),
  then the base handler is called and its result returned (line 75). Nothing orders the
  goroutines against line 75: they, and after them the consumer, may run before the base
  handler is called, and the consumer writes through the same base handler. So a call is
  two steps, between which the other goroutines may take theirs: \<open>Handle_start\<close> starts
  the goroutines and puts the call into a new slot of \<open>calls\<close>, the last one;
  \<open>Handle_finish\<close> calls the base handler for the call in a slot, on the world as it is
  then, and returns its result. \<open>Handle\<close> is the whole call when no other goroutine runs
  in between.
\<close>

definition spawn ::
  "('h, 't) customHandler \<Rightarrow> slog_Record \<Rightarrow> ('h, 't, 'w) system \<Rightarrow> ('h, 't, 'w) system" where
  "spawn hv r s =
     (case logTargets hv of
        None \<Rightarrow> s
      | Some targets \<Rightarrow>
          s\<lparr>goroutines :=
               goroutines s @ map (\<lambda>target. AtSendLog target r (errorChannel hv)) targets\<rparr>)"

definition Handle ::
  "('h, 'w, 'wr) slog_ops \<Rightarrow> nat \<Rightarrow> slog_Record \<Rightarrow> ('h, 't, 'w) system
     \<Rightarrow> (error option \<times> ('h, 't, 'w) system) option" where
  "Handle ops h r s =
     (if h < length (objects s)
      then (let hv = objects s ! h;
                s1 = spawn hv r s;
                (res, w) = Handle_base ops (handler hv) r (world s1)
            in Some (res, s1\<lparr>world := w\<rparr>))
      else None)"

definition Handle_start ::
  "('h, 'w, 'wr) slog_ops \<Rightarrow> nat \<Rightarrow> slog_Record \<Rightarrow> ('h, 't, 'w) system
     \<Rightarrow> ('h, 't, 'w) system option" where
  "Handle_start ops h r s =
     (if h < length (objects s)
      then (let s1 = spawn (objects s ! h) r s
            in Some (s1\<lparr>calls := calls s1 @ [Some (h, r)]\<rparr>))
      else None)"

definition Handle_finish ::
  "('h, 'w, 'wr) slog_ops \<Rightarrow> nat \<Rightarrow> ('h, 't, 'w) system
     \<Rightarrow> (error option \<times> ('h, 't, 'w) system) option" where
  "Handle_finish ops i s =
     (if i < length (calls s)
      then (case calls s ! i of
              None \<Rightarrow> None
            | Some (h, r) \<Rightarrow>
                (if h < length (objects s)
                 then (let (res, w) = Handle_base ops (handler (objects s ! h)) r (world s)
                       in Some (res, s\<lparr>world := w, calls := (calls s)[i := None]\<rparr>))
                 else None))
      else None)"

text \<open>
  \<^verbatim>\<open>WithAttrs\<close> and \<^verbatim>\<open>WithGroup\<close>: \<^verbatim>\<open>&customHandler{...}\<close> allocates a new struct at the
  end of the store and returns the pointer to it.
\<close>

definition WithAttrs ::
  "('h, 'w, 'wr) slog_ops \<Rightarrow> nat \<Rightarrow> (string \<times> any) list \<Rightarrow> ('h, 't, 'w) system
     \<Rightarrow> (nat \<times> ('h, 't, 'w) system) option" where
  "WithAttrs ops h attrs s =
     (if h < length (objects s)
      then (let hv = objects s ! h
            in Some (length (objects s),
                 s\<lparr>objects := objects s @
                      [\<lparr>handler = WithAttrs_base ops (handler hv) attrs,
                        logTargets = logTargets hv,
                        errorChannel = errorChannel hv\<rparr>]\<rparr>))
      else None)"

definition WithGroup ::
  "('h, 'w, 'wr) slog_ops \<Rightarrow> nat \<Rightarrow> string \<Rightarrow> ('h, 't, 'w) system
     \<Rightarrow> (nat \<times> ('h, 't, 'w) system) option" where
  "WithGroup ops h name s =
     (if h < length (objects s)
      then (let hv = objects s ! h
            in Some (length (objects s),
                 s\<lparr>objects := objects s @
                      [\<lparr>handler = WithGroup_base ops (handler hv) name,
                        logTargets = logTargets hv,
                        errorChannel = errorChannel hv\<rparr>]\<rparr>))
      else None)"

definition Handler :: "nat \<Rightarrow> ('h, 't, 'w) system \<Rightarrow> 'h option" where
  "Handler h s = (if h < length (objects s) then Some (handler (objects s ! h)) else None)"

text \<open>
  \<^verbatim>\<open>(*slog.Logger).Error\<close>, of the standard library, as the closure in \<^verbatim>\<open>New\<close> calls it
  on the logger that wraps the custom handler: nothing happens when the handler is not
  enabled for the error level; otherwise a record is built from the current time, the
  caller's program counter, the message and the attributes, and passed to the handler's
  \<^verbatim>\<open>Handle\<close>, whose result is discarded. Nothing reads that result, and the call is one
  step of the consumer.
\<close>

definition Logger_Error ::
  "('h, 'w, 'wr) slog_ops \<Rightarrow> nat \<Rightarrow> gotime \<Rightarrow> nat \<Rightarrow> string \<Rightarrow> (string \<times> any) list
     \<Rightarrow> ('h, 't, 'w) system \<Rightarrow> ('h, 't, 'w) system option" where
  "Logger_Error ops h now pc msg args s =
     (case Enabled ops h LevelError s of
        None \<Rightarrow> None
      | Some False \<Rightarrow> Some s
      | Some True \<Rightarrow>
          (case Handle ops h \<lparr>Time = now, Message = msg, Level = LevelError, PC = pc,
                              Attrs = args\<rparr> s of
             None \<Rightarrow> None
           | Some (res, s') \<Rightarrow> Some s'))"

text \<open>The program counter of the call of \<^verbatim>\<open>logger.Error\<close> in \<^verbatim>\<open>New\<close>, named by its line.\<close>

definition pc_New_Error :: nat where
  "pc_New_Error = 43"

subsection \<open>New\<close>

text \<open>
  \<^verbatim>\<open>newTargetLogCounter\<close> returns a counter at 0 and starts the decay goroutine, which is
  the field \<open>decay\<close> of the system. \<^verbatim>\<open>New\<close> builds the first \<^verbatim>\<open>customHandler\<close> and the
  channel, and starts the consumer goroutine; \<open>w\<close> is the state of the outside world when
  it is called. It returns the logger (the pointer to the handler) and the system.
\<close>

definition newTargetLogCounter :: targetLogCounter where
  "newTargetLogCounter = \<lparr>counter = 0\<rparr>"

definition New ::
  "('h, 'w, 'wr) slog_ops \<Rightarrow> 'wr option \<Rightarrow> 't list option \<Rightarrow> 'w \<Rightarrow> nat \<times> ('h, 't, 'w) system" where
  "New ops writer targets w =
     (let writer' = (case writer of None \<Rightarrow> Stdout ops | Some x \<Rightarrow> x);
          jsonHandler = NewJSONHandler ops writer';
          errorChannel' = 0;
          handler' = \<lparr>handler = jsonHandler, logTargets = targets, errorChannel = errorChannel'\<rparr>
      in (0,
          \<lparr>objects = [handler'],
           channels = [make_chan 0],
           world = w,
           goroutines = [],
           tLogCounter = newTargetLogCounter,
           consumer = CRecv,
           decay = DCheck,
           logger = 0,
           rangeChannel = errorChannel',
           calls = []\<rparr>))"

subsection \<open>Steps of the goroutines\<close>

text \<open>
  A step that is \<open>None\<close> cannot be taken in that state: the goroutine is blocked (or the
  action names no goroutine). \<open>remove_nth i xs\<close> is \<open>xs\<close> without its \<open>i\<close>-th element.
\<close>

definition remove_nth :: "nat \<Rightarrow> 'a list \<Rightarrow> 'a list" where
  "remove_nth i xs = take i xs @ drop (Suc i) xs"

text \<open>
  \<^verbatim>\<open>err := target.SendLog(ctx, r); if err != nil { ... }\<close> in goroutine \<open>i\<close>. What the
  target returns is decided outside the logger, so it is an input of the step.
\<close>

definition sendLog_step ::
  "nat \<Rightarrow> error option \<Rightarrow> ('h, 't, 'w) system \<Rightarrow> ('h, 't, 'w) system option" where
  "sendLog_step i err s =
     (if i < length (goroutines s)
      then (case goroutines s ! i of
              AtSendLog target r ch \<Rightarrow>
                (case err of
                   None \<Rightarrow> Some (s\<lparr>goroutines := remove_nth i (goroutines s)\<rparr>)
                 | Some e \<Rightarrow> Some (s\<lparr>goroutines := (goroutines s)[i := AtChanSend e ch]\<rparr>))
            | AtChanSend e ch \<Rightarrow> None)
      else None)"

text \<open>
  \<^verbatim>\<open>h.errorChannel <- err\<close> in goroutine \<open>i\<close>, with Go's channel semantics: the value is
  handed to a receiver that waits on the channel; otherwise it is put into the buffer when
  there is room; otherwise the sender is blocked. A channel that does not exist is the nil
  channel, on which a send blocks for ever.
\<close>

definition chanSend_step ::
  "nat \<Rightarrow> ('h, 't, 'w) system \<Rightarrow> ('h, 't, 'w) system option" where
  "chanSend_step i s =
     (if i < length (goroutines s)
      then (case goroutines s ! i of
              AtSendLog target r ch \<Rightarrow> None
            | AtChanSend e ch \<Rightarrow>
                (if ch < length (channels s)
                 then (let c = channels s ! ch in
                       if consumer s = CRecv \<and> rangeChannel s = ch \<and> buf c = []
                       then Some (s\<lparr>goroutines := remove_nth i (goroutines s),
                                    consumer := CGot (Some e)\<rparr>)
                       else if length (buf c) < cap c
                       then Some (s\<lparr>goroutines := remove_nth i (goroutines s),
                                    channels := (channels s)[ch := c\<lparr>buf := buf c @ [Some e]\<rparr>]\<rparr>)
                       else None)
                 else None))
      else None)"

text \<open>
  One statement of the consumer (lines 38 to 46). At \<open>CRecv\<close> it takes a buffered value if
  there is one and is blocked otherwise (a blocked sender hands its value over in
  \<open>chanSend_step\<close>). \<open>now\<close> is what \<^verbatim>\<open>time.Now()\<close> returns inside \<^verbatim>\<open>logger.Error\<close>.
\<close>

definition consumer_step ::
  "('h, 'w, 'wr) slog_ops \<Rightarrow> gotime \<Rightarrow> ('h, 't, 'w) system \<Rightarrow> ('h, 't, 'w) system option" where
  "consumer_step ops now s =
     (case consumer s of
        CRecv \<Rightarrow>
          (if rangeChannel s < length (channels s)
           then (let c = channels s ! rangeChannel s in
                 case buf c of
                   [] \<Rightarrow> None
                 | err # rest \<Rightarrow>
                     Some (s\<lparr>channels := (channels s)[rangeChannel s := c\<lparr>buf := rest\<rparr>],
                             consumer := CGot err\<rparr>))
           else None)
      | CGot err \<Rightarrow>
          (if 5 <s get (tLogCounter s)
           then Some (s\<lparr>consumer := CRecv\<rparr>)
           else Some (s\<lparr>consumer := CLog err\<rparr>))
      | CLog err \<Rightarrow>
          (case err of
             None \<Rightarrow> Some (s\<lparr>consumer := CRecv\<rparr>)
           | Some e \<Rightarrow>
               (case Logger_Error ops (logger s) now pc_New_Error ''Error in custom handler''
                       [(''error'', AError e)] s of
                  None \<Rightarrow> None
                | Some s' \<Rightarrow> Some (s'\<lparr>consumer := CInc\<rparr>)))
      | CInc \<Rightarrow>
          Some (s\<lparr>tLogCounter := increment (tLogCounter s), consumer := CRecv\<rparr>))"

text \<open>One statement of the decay goroutine (lines 170 to 175).\<close>

definition decay_step :: "('h, 't, 'w) system \<Rightarrow> ('h, 't, 'w) system option" where
  "decay_step s =
     (case decay s of
        DCheck \<Rightarrow>
          (if 0 <s get (tLogCounter s)
           then Some (s\<lparr>decay := DDec\<rparr>)
           else Some (s\<lparr>decay := DSleep\<rparr>))
      | DDec \<Rightarrow> Some (s\<lparr>tLogCounter := decrement (tLogCounter s), decay := DSleep\<rparr>)
      | DSleep \<Rightarrow> Some (s\<lparr>decay := DCheck\<rparr>))"

text \<open>
  What can happen next: the application calls \<^verbatim>\<open>Handle\<close>, \<^verbatim>\<open>WithAttrs\<close> or \<^verbatim>\<open>WithGroup\<close>
  on a handler it holds, or one of the goroutines runs its next statement. A call of
  \<^verbatim>\<open>Handle\<close> is \<open>LogStart\<close> and, later, \<open>LogFinish\<close> of its slot; \<open>Log\<close> is the call during
  which no other goroutine runs.
\<close>

datatype action =
    Log nat slog_Record
  | DeriveAttrs nat "(string \<times> any) list"
  | DeriveGroup nat string
  | RunSendLog nat "error option"
  | RunChanSend nat
  | Consumer gotime
  | Decay
  | LogStart nat slog_Record
  | LogFinish nat

fun step ::
  "('h, 'w, 'wr) slog_ops \<Rightarrow> action \<Rightarrow> ('h, 't, 'w) system \<Rightarrow> ('h, 't, 'w) system option" where
  "step ops (Log h r) s = map_option snd (Handle ops h r s)"
| "step ops (DeriveAttrs h attrs) s = map_option snd (WithAttrs ops h attrs s)"
| "step ops (DeriveGroup h name) s = map_option snd (WithGroup ops h name s)"
| "step ops (RunSendLog i err) s = sendLog_step i err s"
| "step ops (RunChanSend i) s = chanSend_step i s"
| "step ops (Consumer now) s = consumer_step ops now s"
| "step ops Decay s = decay_step s"
| "step ops (LogStart h r) s = Handle_start ops h r s"
| "step ops (LogFinish i) s = map_option snd (Handle_finish ops i s)"

fun exec ::
  "('h, 'w, 'wr) slog_ops \<Rightarrow> action list \<Rightarrow> ('h, 't, 'w) system \<Rightarrow> ('h, 't, 'w) system option" where
  "exec ops [] s = Some s"
| "exec ops (a # as) s = (case step ops a s of None \<Rightarrow> None | Some s' \<Rightarrow> exec ops as s')"

subsection \<open>The New Relic target\<close>

text \<open>
  \<^verbatim>\<open>newRelicLogger\<close> and its \<^verbatim>\<open>SendLog\<close>. The calls into \<^verbatim>\<open>runtime\<close>, \<^verbatim>\<open>log/slog\<close>,
  \<^verbatim>\<open>net/http\<close> and \<^verbatim>\<open>encoding/json\<close> are parameters: \<open>CallersFrames pc\<close> is the function
  name and line of the first frame of \<^verbatim>\<open>runtime.CallersFrames([]uintptr{pc})\<close>;
  \<open>NewRequest\<close>, \<open>Marshal\<close> and \<open>Do\<close> return their error on the left and their value
  on the right, \<open>Do\<close> being what the network answers to the request.
\<close>

record request =
  Method :: string
  URL :: string
  Header :: "string \<rightharpoonup> string"
  Body :: "string option"

record response =
  StatusCode :: int

record 'c http_ops =
  CallersFrames :: "nat \<Rightarrow> string \<times> int"
  Level_String :: "int \<Rightarrow> string"
  NewRequest :: "string \<Rightarrow> string \<Rightarrow> error + request"
  Marshal :: "(string \<rightharpoonup> any) \<Rightarrow> error + string"
  Do :: "'c \<Rightarrow> request \<Rightarrow> error + response"
  NewClient :: 'c

record 'c newRelicLogger =
  newRelicEndpoint :: string
  newRelicLicenseKey :: string
  client :: 'c

definition NewNewRelicLogger :: "'c http_ops \<Rightarrow> string \<Rightarrow> string \<Rightarrow> 'c newRelicLogger" where
  "NewNewRelicLogger env endpoint licenseKey =
     \<lparr>newRelicEndpoint = endpoint, newRelicLicenseKey = licenseKey, client = NewClient env\<rparr>"

definition MethodPost :: string where
  "MethodPost = ''POST''"

definition StatusAccepted :: int where
  "StatusAccepted = 202"

definition Header_Set :: "string \<Rightarrow> string \<Rightarrow> request \<Rightarrow> request" where
  "Header_Set k v req = req\<lparr>Header := (Header req)(k \<mapsto> v)\<rparr>"

text \<open>
  Lines 119 to 130: the map \<^verbatim>\<open>fields\<close> after the six assignments of the keys that
  \<^verbatim>\<open>SendLog\<close> sets itself, in the order of the source.
\<close>

definition reserved_fields :: "'c http_ops \<Rightarrow> slog_Record \<Rightarrow> (string \<rightharpoonup> any)" where
  "reserved_fields env r =
     (let f = CallersFrames env (PC r);
          m0 = Map.empty;
          m1 = m0(''time'' \<mapsto> ATime (Time r));
          m2 = m1(''message'' \<mapsto> AString (Message r));
          m3 = m2(''level'' \<mapsto> AString (Level_String env (Level r)));
          m4 = m3(''timestamp'' \<mapsto> AInt (Unix (Time r)));
          m5 = m4(''logtype'' \<mapsto> AString ''application'')
      in m5(''source'' \<mapsto> AMap [(''function'', AString (fst f)), (''line'', AInt (snd f))]))"

text \<open>
  Lines 131 to 134: then one assignment \<^verbatim>\<open>fields[a.Key] = a.Value.Any()\<close> per attribute of
  the record, in the order of \<^verbatim>\<open>r.Attrs\<close>. The result is the map that is marshalled.
\<close>

definition fields :: "'c http_ops \<Rightarrow> slog_Record \<Rightarrow> (string \<rightharpoonup> any)" where
  "fields env r = fold (\<lambda>a m. m(fst a \<mapsto> snd a)) (Attrs r) (reserved_fields env r)"

text \<open>Lines 135 to 155. \<open>None\<close> is the nil error.\<close>

definition SendLog :: "'c http_ops \<Rightarrow> 'c newRelicLogger \<Rightarrow> slog_Record \<Rightarrow> error option" where
  "SendLog env l r =
     (case NewRequest env MethodPost (newRelicEndpoint l) of
        Inl err \<Rightarrow> Some err
      | Inr req \<Rightarrow>
          (let req1 = Header_Set ''Content-Type'' ''application/json'' req;
               req2 = Header_Set ''Api-Key'' (newRelicLicenseKey l) req1
           in case Marshal env (fields env r) of
                Inl err \<Rightarrow> Some err
              | Inr jsonFields \<Rightarrow>
                  (case Do env (client l) (req2\<lparr>Body := Some jsonFields\<rparr>) of
                     Inl err \<Rightarrow> Some err
                   | Inr resp \<Rightarrow>
                       (if StatusCode resp \<noteq> StatusAccepted
                        then Some (''unexpected status code: '' @ show_int (StatusCode resp))
                        else None))))"

text \<open>The keys that \<^verbatim>\<open>SendLog\<close> sets itself.\<close>

definition reserved_keys :: "string set" where
  "reserved_keys = {''time'', ''message'', ''level'', ''timestamp'', ''logtype'', ''source''}"

subsection \<open>Concrete collaborators\<close>

text \<open>
  Instances of the parameters, to run the model on concrete inputs. \<open>memory_ops\<close> is a base
  handler that is enabled from the info level (0) on, as a handler made with
  \<^verbatim>\<open>slog.HandlerOptions\<close> without a level is, never fails, and appends what it is given,
  with the names it was derived with, to a list. \<open>canned_http\<close> is a network that answers
  every request with the given status.
\<close>

definition memory_ops :: "(string list, (string list \<times> slog_Record) list, unit) slog_ops" where
  "memory_ops =
     \<lparr>Enabled_base = (\<lambda>h level. 0 \<le> level),
      Handle_base = (\<lambda>h r w. (None, w @ [(h, r)])),
      WithAttrs_base = (\<lambda>h attrs. h @ map fst attrs),
      WithGroup_base = (\<lambda>h name. h @ [name]),
      NewJSONHandler = (\<lambda>writer. []),
      Stdout = ()\<rparr>"

definition canned_http :: "int \<Rightarrow> unit http_ops" where
  "canned_http status =
     \<lparr>CallersFrames = (\<lambda>pc. (''main.main'', int pc)),
      Level_String = (\<lambda>level. if level < 0 then ''DEBUG'' else if level < 4 then ''INFO''
                               else if level < 8 then ''WARN'' else ''ERROR''),
      NewRequest = (\<lambda>method url. Inr \<lparr>Method = method, URL = url, Header = Map.empty, Body = None\<rparr>),
      Marshal = (\<lambda>m. Inr ''{}''),
      Do = (\<lambda>c req. Inr \<lparr>StatusCode = status\<rparr>),
      NewClient = ()\<rparr>"

definition record0 :: slog_Record where
  "record0 = \<lparr>Time = GoTime 1700000000 0, Message = ''started'', Level = 0, PC = 7,
              Attrs = [(''user'', AString ''ada''), (''tries'', AInt 3)]\<rparr>"

definition record1 :: slog_Record where
  "record1 = \<lparr>Time = GoTime 1700000000 0, Message = ''started'', Level = 0, PC = 7,
              Attrs = [(''level'', AString ''custom''), (''rows'', AInt 3)]\<rparr>"

text \<open>
  Two loggers that write to \<open>memory_ops\<close>, one with a single target and one without
  targets, and the record that the consumer logs for the error \<open>down\<close> at a fixed time.
\<close>

definition logger1 :: "(string list, string, (string list \<times> slog_Record) list) system" where
  "logger1 = snd (New memory_ops None (Some [''relic'']) [])"

definition logger0 :: "(string list, string, (string list \<times> slog_Record) list) system" where
  "logger0 = snd (New memory_ops None None [])"

definition error_record0 :: slog_Record where
  "error_record0 = \<lparr>Time = GoTime 1700000001 0, Message = ''Error in custom handler'',
                     Level = 8, PC = 43, Attrs = [(''error'', AError ''down'')]\<rparr>"

text \<open>
  \<open>short_ops n\<close> is \<open>memory_ops\<close> on a writer that takes \<open>n\<close> entries and fails with
  \<^verbatim>\<open>io.ErrShortWrite\<close> from then on; \<open>logger2\<close> is a logger with one target on such a
  writer with room for one entry.
\<close>

definition short_ops ::
  "nat \<Rightarrow> (string list, (string list \<times> slog_Record) list, unit) slog_ops" where
  "short_ops n =
     memory_ops\<lparr>Handle_base :=
       (\<lambda>h r w. if length w < n then (None, w @ [(h, r)]) else (Some ''short write'', w))\<rparr>"

definition logger2 :: "(string list, string, (string list \<times> slog_Record) list) system" where
  "logger2 = snd (New (short_ops 1) None (Some [''relic'']) [])"

subsection \<open>Invariants\<close>

text \<open>
  What holds in every state the logger reaches, as predicates on the state.
  \<open>counter_inv\<close>: the counter stays between 0 and 6; it is positive while the decay
  goroutine is between its test and its decrement, and at most 5 while the consumer is
  between its test and its increment.
\<close>

fun past_gate :: "consumer_pc \<Rightarrow> bool" where
  "past_gate (CLog err) = True"
| "past_gate CInc = True"
| "past_gate (CGot err) = False"
| "past_gate CRecv = False"

definition counter_inv :: "('h, 't, 'w) system \<Rightarrow> bool" where
  "counter_inv s =
     (let v = sint (get (tLogCounter s)) in
      0 \<le> v \<and> v \<le> 6 \<and>
      (decay s = DDec \<longrightarrow> 0 < v) \<and>
      (past_gate (consumer s) \<longrightarrow> v \<le> 5))"

text \<open>
  \<open>wiring_inv\<close>: there is one channel, the one \<^verbatim>\<open>New\<close> made, without a buffer, and every
  handler and every goroutine refers to it. \<open>idle_inv\<close>: the state of a logger without
  targets, in which no goroutine was ever started.
\<close>

fun chan_of :: "'t goroutine \<Rightarrow> nat" where
  "chan_of (AtSendLog target r ch) = ch"
| "chan_of (AtChanSend e ch) = ch"

definition wiring_inv :: "('h, 't, 'w) system \<Rightarrow> bool" where
  "wiring_inv s =
     (channels s = [make_chan 0] \<and> rangeChannel s = 0 \<and> logger s < length (objects s) \<and>
      list_all (\<lambda>hv. errorChannel hv = 0) (objects s) \<and>
      list_all (\<lambda>g. chan_of g = 0) (goroutines s))"

definition no_targets :: "'t list option \<Rightarrow> bool" where
  "no_targets targets = (case targets of None \<Rightarrow> True | Some ts \<Rightarrow> ts = [])"

definition idle_inv :: "('h, 't, 'w) system \<Rightarrow> bool" where
  "idle_inv s =
     (goroutines s = [] \<and> consumer s = CRecv \<and> channels s = [make_chan 0] \<and>
      rangeChannel s = 0 \<and> tLogCounter s = newTargetLogCounter \<and> decay s \<noteq> DDec \<and>
      list_all (\<lambda>hv. no_targets (logTargets hv)) (objects s))"

text \<open>
  \<open>call_inv i h r hb\<close>: slot \<open>i\<close> of \<open>calls\<close> was given to a call of \<^verbatim>\<open>Handle\<close> on the
  handler \<open>h\<close> with the record \<open>r\<close>, and the base handler of \<open>h\<close> is \<open>hb\<close>.
\<close>

definition call_inv ::
  "nat \<Rightarrow> nat \<Rightarrow> slog_Record \<Rightarrow> 'h \<Rightarrow> ('h, 't, 'w) system \<Rightarrow> bool" where
  "call_inv i h r hb s =
     (i < length (calls s) \<and>
      (case calls s ! i of None \<Rightarrow> True | Some c \<Rightarrow> c = (h, r)) \<and>
      h < length (objects s) \<and> handler (objects s ! h) = hb)"

section \<open>Properties\<close>

subsection \<open>Handle\<close>

lemma world_spawn: "world (spawn hv r s) = world s"
  by (simp add: spawn_def split: option.splits)

lemma objects_spawn: "objects (spawn hv r s) = objects s"
  by (simp add: spawn_def split: option.splits)

lemma calls_spawn: "calls (spawn hv r s) = calls s"
  by (simp add: spawn_def split: option.splits)

lemma Handle_Some:
  "h < length (objects s) \<Longrightarrow>
   Handle ops h r s =
     Some (fst (Handle_base ops (handler (objects s ! h)) r (world s)),
           (spawn (objects s ! h) r s)
             \<lparr>world := snd (Handle_base ops (handler (objects s ! h)) r (world s))\<rparr>)"
  by (simp add: Handle_def Let_def world_spawn split: prod.splits)



subsection \<open>WithAttrs and WithGroup\<close>

text \<open>
  C8. For every handler \<open>h\<close> in the store, \<^verbatim>\<open>WithAttrs\<close> and \<^verbatim>\<open>WithGroup\<close> each return a
  pointer to a new handler, different from \<open>h\<close>, whose base handler is the one derived from
  the base handler of \<open>h\<close> and whose targets and error channel are those of \<open>h\<close>. The
  struct \<open>h\<close> points to is what it was, as is every other struct of the store, and nothing
  else of the state changes.
\<close>

theorem WithAttrs_WithGroup_frame:
  assumes "h < length (objects s)"
  shows "(case WithAttrs ops h attrs s of
            None \<Rightarrow> False
          | Some (h', s') \<Rightarrow>
              h' \<noteq> h \<and> h' < length (objects s') \<and>
              handler (objects s' ! h') = WithAttrs_base ops (handler (objects s ! h)) attrs \<and>
              logTargets (objects s' ! h') = logTargets (objects s ! h) \<and>
              errorChannel (objects s' ! h') = errorChannel (objects s ! h) \<and>
              objects s' ! h = objects s ! h \<and>
              take (length (objects s)) (objects s') = objects s \<and>
              s'\<lparr>objects := objects s\<rparr> = s) \<and>
         (case WithGroup ops h name s of
            None \<Rightarrow> False
          | Some (h', s') \<Rightarrow>
              h' \<noteq> h \<and> h' < length (objects s') \<and>
              handler (objects s' ! h') = WithGroup_base ops (handler (objects s ! h)) name \<and>
              logTargets (objects s' ! h') = logTargets (objects s ! h) \<and>
              errorChannel (objects s' ! h') = errorChannel (objects s ! h) \<and>
              objects s' ! h = objects s ! h \<and>
              take (length (objects s)) (objects s') = objects s \<and>
              s'\<lparr>objects := objects s\<rparr> = s)"
  using assms by (simp add: WithAttrs_def WithGroup_def Let_def nth_append)

theorem WithAttrs_WithGroup_frame_witness:
  "(0::nat) < length (objects (snd (New memory_ops None (Some [''relic'']) []))) \<and>
   WithAttrs memory_ops 0 [(''user'', AString ''ada'')] (snd (New memory_ops None (Some [''relic'']) [])) =
     Some (1, (snd (New memory_ops None (Some [''relic'']) []))
       \<lparr>objects := [\<lparr>handler = [], logTargets = Some [''relic''], errorChannel = 0\<rparr>,
                    \<lparr>handler = [''user''], logTargets = Some [''relic''], errorChannel = 0\<rparr>]\<rparr>) \<and>
   WithGroup memory_ops 0 ''db'' (snd (New memory_ops None (Some [''relic'']) [])) =
     Some (1, (snd (New memory_ops None (Some [''relic'']) []))
       \<lparr>objects := [\<lparr>handler = [], logTargets = Some [''relic''], errorChannel = 0\<rparr>,
                    \<lparr>handler = [''db''], logTargets = Some [''relic''], errorChannel = 0\<rparr>]\<rparr>)"
  using WithAttrs_WithGroup_frame [of 0 "snd (New memory_ops None (Some [''relic'']) [])"
     memory_ops "[(''user'', AString ''ada'')]" "''db''"]
  by (simp add: New_def memory_ops_def WithAttrs_def WithGroup_def)

subsection \<open>The payload of the New Relic target\<close>

lemma fold_upd_lookup:
  "fold (\<lambda>a m. m(fst a \<mapsto> snd a)) attrs m k =
     (case map_of (rev attrs) k of None \<Rightarrow> m k | Some v \<Rightarrow> Some v)"
  by (induction attrs arbitrary: m) (auto simp: map_of_append map_add_def split: option.splits)

lemma fields_lookup:
  "fields env r k =
     (case map_of (rev (Attrs r)) k of None \<Rightarrow> reserved_fields env r k | Some v \<Rightarrow> Some v)"
  by (simp add: fields_def fold_upd_lookup)

lemma dom_reserved_fields: "dom (reserved_fields env r) = reserved_keys"
  by (auto simp: reserved_fields_def reserved_keys_def Let_def split: if_splits)

lemma dom_fields: "dom (fields env r) = reserved_keys \<union> fst ` set (Attrs r)"
proof -
  have "dom (map_of (rev (Attrs r))) = fst ` set (Attrs r)"
    by (simp add: dom_map_of_conv_image_fst)
  moreover have "dom (fields env r) = dom (reserved_fields env r) \<union> dom (map_of (rev (Attrs r)))"
    by (auto simp: fields_lookup dom_def split: option.splits)
  ultimately show ?thesis by (simp add: dom_reserved_fields)
qed

lemma map_of_rev_distinct:
  "distinct (map fst xs) \<Longrightarrow> (k, v) \<in> set xs \<Longrightarrow> map_of (rev xs) k = Some v"
  by (simp add: distinct_rev rev_map [symmetric] del: rev_map)

text \<open>
  C6. For every record whose attributes have pairwise different keys (two attributes
  \<open>k1: v1\<close> and \<open>k2: v2\<close>, or any number of them), the keys of the payload are
  \<open>time\<close>, \<open>message\<close>, \<open>level\<close>, \<open>timestamp\<close>, \<open>logtype\<close>, \<open>source\<close> and the keys of the
  attributes, and the payload maps the key of every attribute to the value of that
  attribute.
\<close>

theorem payload_keeps_attributes:
  assumes "distinct (map fst (Attrs r))"
  shows "dom (fields env r) = reserved_keys \<union> fst ` set (Attrs r) \<and>
         (\<forall>a \<in> set (Attrs r). fields env r (fst a) = Some (snd a))"
proof
  show "dom (fields env r) = reserved_keys \<union> fst ` set (Attrs r)"
    by (rule dom_fields)
  show "\<forall>a \<in> set (Attrs r). fields env r (fst a) = Some (snd a)"
  proof
    fix a assume "a \<in> set (Attrs r)"
    then have "(fst a, snd a) \<in> set (Attrs r)" by simp
    with assms have "map_of (rev (Attrs r)) (fst a) = Some (snd a)"
      by (rule map_of_rev_distinct)
    then show "fields env r (fst a) = Some (snd a)"
      by (simp add: fields_lookup)
  qed
qed

theorem payload_keeps_attributes_witness:
  "distinct (map fst (Attrs record0)) \<and>
   dom (fields (canned_http 202) record0) =
     {''time'', ''message'', ''level'', ''timestamp'', ''logtype'', ''source'', ''user'', ''tries''} \<and>
   fields (canned_http 202) record0 ''user'' = Some (AString ''ada'') \<and>
   fields (canned_http 202) record0 ''tries'' = Some (AInt 3)"
  using payload_keeps_attributes [of record0 "canned_http 202"]
  by (auto simp: record0_def reserved_keys_def)

text \<open>
  C10. The attributes are written into the payload after the reserved fields. So for a
  record with an attribute whose key \<open>k\<close> is one of the reserved keys, the payload's value
  at \<open>k\<close> is read from the attributes alone (it is the value of the last attribute with
  that key), so it is the value of an attribute with that key, and it is the value \<open>v\<close> of
  the attribute when no other attribute has the same key.
\<close>

theorem attribute_overrides_reserved_key:
  assumes "k \<in> reserved_keys" and "(k, v) \<in> set (Attrs r)"
  shows "fields env r k = map_of (rev (Attrs r)) k \<and>
         (\<exists>v'. (k, v') \<in> set (Attrs r) \<and> fields env r k = Some v') \<and>
         (distinct (map fst (Attrs r)) \<longrightarrow> fields env r k = Some v)"
proof -
  from assms(2) have "k \<in> fst ` set (rev (Attrs r))" by force
  then obtain v' where v': "map_of (rev (Attrs r)) k = Some v'"
    by (metis domD dom_map_of_conv_image_fst)
  then have "(k, v') \<in> set (Attrs r)"
    using map_of_SomeD by fastforce
  moreover have "fields env r k = Some v'"
    using v' by (simp add: fields_lookup)
  moreover have "distinct (map fst (Attrs r)) \<longrightarrow> fields env r k = Some v"
    using assms(2) by (simp add: fields_lookup map_of_rev_distinct)
  ultimately show ?thesis using v' by auto
qed

theorem attribute_overrides_reserved_key_witness:
  "''level'' \<in> reserved_keys \<and> (''level'', AString ''custom'') \<in> set (Attrs record1) \<and>
   reserved_fields (canned_http 202) record1 ''level'' = Some (AString ''INFO'') \<and>
   fields (canned_http 202) record1 ''level'' = Some (AString ''custom'')"
  using attribute_overrides_reserved_key [of "''level''" "AString ''custom''" record1 "canned_http 202"]
  by (simp add: record1_def reserved_keys_def reserved_fields_def canned_http_def)

subsection \<open>SendLog\<close>

text \<open>
  C7. \<^verbatim>\<open>SendLog\<close> returns nil exactly when the request was built, the payload was
  marshalled, the request was answered and the status of the answer is 202 (accepted). It
  returns an error exactly when building the request fails, or marshalling fails, or the
  transport fails, or the status of the answer is not 202.
\<close>

theorem SendLog_error_iff:
  "(SendLog env l r = None) =
     (\<exists>req body resp.
        NewRequest env MethodPost (newRelicEndpoint l) = Inr req \<and>
        Marshal env (fields env r) = Inr body \<and>
        Do env (client l)
          ((Header_Set ''Api-Key'' (newRelicLicenseKey l)
             (Header_Set ''Content-Type'' ''application/json'' req))\<lparr>Body := Some body\<rparr>) = Inr resp \<and>
        StatusCode resp = StatusAccepted) \<and>
   (SendLog env l r \<noteq> None) =
     ((\<exists>err. NewRequest env MethodPost (newRelicEndpoint l) = Inl err) \<or>
      (\<exists>req. NewRequest env MethodPost (newRelicEndpoint l) = Inr req \<and>
         ((\<exists>err. Marshal env (fields env r) = Inl err) \<or>
          (\<exists>body. Marshal env (fields env r) = Inr body \<and>
             ((\<exists>err. Do env (client l)
                 ((Header_Set ''Api-Key'' (newRelicLicenseKey l)
                    (Header_Set ''Content-Type'' ''application/json'' req))\<lparr>Body := Some body\<rparr>)
                   = Inl err) \<or>
              (\<exists>resp. Do env (client l)
                 ((Header_Set ''Api-Key'' (newRelicLicenseKey l)
                    (Header_Set ''Content-Type'' ''application/json'' req))\<lparr>Body := Some body\<rparr>)
                   = Inr resp \<and> StatusCode resp \<noteq> StatusAccepted))))))"
  by (auto simp: SendLog_def Let_def split: sum.splits)

theorem SendLog_error_iff_witness:
  "SendLog (canned_http 202) (NewNewRelicLogger (canned_http 202) ''https://log-api'' ''key'') record0 = None \<and>
   SendLog (canned_http 500) (NewNewRelicLogger (canned_http 500) ''https://log-api'' ''key'') record0
     = Some ''unexpected status code: 500''"
proof
  show "SendLog (canned_http 202) (NewNewRelicLogger (canned_http 202) ''https://log-api'' ''key'') record0 = None"
    using SendLog_error_iff [of "canned_http 202"
        "NewNewRelicLogger (canned_http 202) ''https://log-api'' ''key''" record0]
    by (simp add: canned_http_def NewNewRelicLogger_def StatusAccepted_def)
  show "SendLog (canned_http 500) (NewNewRelicLogger (canned_http 500) ''https://log-api'' ''key'') record0
     = Some ''unexpected status code: 500''"
    by code_simp
qed

subsection \<open>What every reachable state satisfies\<close>

text \<open>
  The counter is a machine integer: the two lemmas say that an increment below 7 and a
  decrement above 0 do not wrap around.
\<close>

lemma sint_inc: "sint (c::64 word) \<le> 6 \<Longrightarrow> sint (c + 1) = sint c + 1"
proof -
  assume a: "sint c \<le> 6"
  have "- (2 ^ 63) \<le> sint c" using sint_ge [of c] by simp
  with a have "signed_take_bit 63 (sint c + 1) = sint c + 1"
    by (intro signed_take_bit_int_eq_self) auto
  then show ?thesis by (simp add: sint_word_ariths)
qed

lemma sint_dec: "0 < sint (c::64 word) \<Longrightarrow> sint (c - 1) = sint c - 1"
proof -
  assume a: "0 < sint c"
  have "sint c < 2 ^ 63" using sint_lt [of c] by simp
  with a have "signed_take_bit 63 (sint c - 1) = sint c - 1"
    by (intro signed_take_bit_int_eq_self) auto
  then show ?thesis by (simp add: sint_word_ariths)
qed

lemma Handle_frame:
  "Handle ops h r s = Some (res, s') \<Longrightarrow>
   tLogCounter s' = tLogCounter s \<and> consumer s' = consumer s \<and> decay s' = decay s \<and>
   objects s' = objects s \<and> channels s' = channels s \<and> logger s' = logger s \<and>
   rangeChannel s' = rangeChannel s"
  by (auto simp: Handle_def Let_def spawn_def split: if_splits prod.splits option.splits)

lemma Logger_Error_frame:
  "Logger_Error ops h now pc msg args s = Some s' \<Longrightarrow>
   tLogCounter s' = tLogCounter s \<and> consumer s' = consumer s \<and> decay s' = decay s \<and>
   objects s' = objects s \<and> channels s' = channels s \<and> logger s' = logger s \<and>
   rangeChannel s' = rangeChannel s"
  by (auto simp: Logger_Error_def dest: Handle_frame split: option.splits bool.splits)

lemma counter_inv_step:
  assumes "step ops a s = Some s'" and "counter_inv s"
  shows "counter_inv s'"
proof (cases a)
  case (Log h r)
  with assms show ?thesis
    by (auto simp: counter_inv_def dest!: Handle_frame)
next
  case (DeriveAttrs h attrs)
  with assms show ?thesis
    by (auto simp: counter_inv_def WithAttrs_def Let_def split: if_splits)
next
  case (DeriveGroup h name)
  with assms show ?thesis
    by (auto simp: counter_inv_def WithGroup_def Let_def split: if_splits)
next
  case (RunSendLog i err)
  with assms show ?thesis
    by (auto simp: counter_inv_def sendLog_step_def split: if_splits goroutine.splits option.splits)
next
  case (RunChanSend i)
  with assms show ?thesis
    by (auto simp: counter_inv_def chanSend_step_def Let_def split: if_splits goroutine.splits)
next
  case (Consumer now)
  with assms show ?thesis
    by (auto simp: counter_inv_def consumer_step_def Let_def get_def increment_def
          word_sless_alt sint_inc
        dest!: Logger_Error_frame
        split: if_splits consumer_pc.splits list.splits option.splits)
next
  case Decay
  with assms show ?thesis
    by (auto simp: counter_inv_def decay_step_def Let_def get_def decrement_def
          word_sless_alt sint_dec
        split: if_splits decay_pc.splits consumer_pc.splits)
next
  case (LogStart h r)
  with assms show ?thesis
    by (auto simp: counter_inv_def Handle_start_def Let_def spawn_def
          split: if_splits option.splits)
next
  case (LogFinish i)
  with assms show ?thesis
    by (auto simp: counter_inv_def Handle_finish_def Let_def
          split: if_splits option.splits prod.splits)
qed

lemma counter_inv_exec:
  "exec ops acts s = Some s' \<Longrightarrow> counter_inv s \<Longrightarrow> counter_inv s'"
  by (induction acts arbitrary: s) (auto split: option.splits dest: counter_inv_step)

lemma counter_inv_New: "counter_inv (snd (New ops writer targets w))"
  by (simp add: counter_inv_def New_def Let_def newTargetLogCounter_def get_def)


lemma set_remove_nth: "set (remove_nth i xs) \<subseteq> set xs"
  using set_take_subset [of i xs] set_drop_subset [of "Suc i" xs]
  by (auto simp: remove_nth_def)

lemma list_all_remove_nth: "list_all P xs \<Longrightarrow> list_all P (remove_nth i xs)"
  using set_remove_nth [of i xs] by (auto simp: list_all_iff)

lemma list_all_update: "list_all P xs \<Longrightarrow> P x \<Longrightarrow> list_all P (xs[i := x])"
  using set_update_subset_insert [of xs i x] by (auto simp: list_all_iff)

lemma errorChannel_nth:
  "list_all (\<lambda>hv. errorChannel hv = 0) xs \<Longrightarrow> h < length xs \<Longrightarrow> errorChannel (xs ! h) = 0"
  by (simp add: list_all_length)

lemma chan_of_nth:
  "list_all (\<lambda>g. chan_of g = 0) gs \<Longrightarrow> i < length gs \<Longrightarrow> chan_of (gs ! i) = 0"
  by (simp add: list_all_length)

lemma no_targets_nth:
  "list_all (\<lambda>hv. no_targets (logTargets hv)) xs \<Longrightarrow> h < length xs \<Longrightarrow>
   no_targets (logTargets (xs ! h))"
  by (simp add: list_all_length)

lemma wiring_inv_spawn:
  assumes "h < length (objects s)" and "wiring_inv s"
  shows "wiring_inv (spawn (objects s ! h) r s)"
proof -
  from assms have "errorChannel (objects s ! h) = 0"
    by (simp add: wiring_inv_def errorChannel_nth)
  then show ?thesis
    using assms(2) by (auto simp: wiring_inv_def spawn_def list_all_iff split: option.splits)
qed

lemma wiring_inv_Handle:
  assumes "Handle ops h r s = Some (res, s')" and "wiring_inv s"
  shows "wiring_inv s'"
proof -
  from assms(1) have h: "h < length (objects s)"
    by (simp add: Handle_def split: if_splits)
  with assms(2) have "wiring_inv (spawn (objects s ! h) r s)"
    by (simp add: wiring_inv_spawn)
  moreover from assms(1) h
  have "s' = (spawn (objects s ! h) r s)
               \<lparr>world := snd (Handle_base ops (handler (objects s ! h)) r (world s))\<rparr>"
    by (simp add: Handle_Some)
  ultimately show ?thesis by (simp add: wiring_inv_def)
qed

lemma wiring_inv_Logger_Error:
  "Logger_Error ops h now pc msg args s = Some s' \<Longrightarrow> wiring_inv s \<Longrightarrow> wiring_inv s'"
  by (auto simp: Logger_Error_def dest: wiring_inv_Handle split: option.splits bool.splits)

lemma wiring_inv_consumer_upd [simp]: "wiring_inv (s\<lparr>consumer := c\<rparr>) = wiring_inv s"
  by (simp add: wiring_inv_def)

lemma wiring_inv_step:
  assumes "step ops a s = Some s'" and "wiring_inv s"
  shows "wiring_inv s'"
proof (cases a)
  case (Log h r)
  with assms show ?thesis
    by (auto dest: wiring_inv_Handle)
next
  case (DeriveAttrs h attrs)
  with assms show ?thesis
    by (auto simp: wiring_inv_def WithAttrs_def Let_def errorChannel_nth split: if_splits)
next
  case (DeriveGroup h name)
  with assms show ?thesis
    by (auto simp: wiring_inv_def WithGroup_def Let_def errorChannel_nth split: if_splits)
next
  case (RunSendLog i err)
  with assms have i: "i < length (goroutines s)"
    by (simp add: sendLog_step_def split: if_splits)
  with assms(2) have "chan_of (goroutines s ! i) = 0"
    by (simp add: wiring_inv_def chan_of_nth)
  with RunSendLog assms i show ?thesis
    by (auto simp: wiring_inv_def sendLog_step_def list_all_remove_nth
          intro!: list_all_update split: goroutine.splits option.splits)
next
  case (RunChanSend i)
  with assms show ?thesis
    by (auto simp: wiring_inv_def chanSend_step_def Let_def list_all_remove_nth make_chan_def
          split: if_splits goroutine.splits)
next
  case (Consumer now)
  show ?thesis
  proof (cases "consumer s")
    case CRecv
    with Consumer assms show ?thesis
      by (auto simp: wiring_inv_def consumer_step_def make_chan_def)
  next
    case (CGot err)
    with Consumer assms show ?thesis
      by (auto simp: consumer_step_def split: if_splits)
  next
    case (CLog err)
    with Consumer assms show ?thesis
      by (auto simp: consumer_step_def dest: wiring_inv_Logger_Error split: option.splits)
  next
    case CInc
    with Consumer assms show ?thesis
      by (auto simp: consumer_step_def wiring_inv_def)
  qed
next
  case Decay
  with assms show ?thesis
    by (auto simp: wiring_inv_def decay_step_def split: if_splits decay_pc.splits)
next
  case (LogStart h r)
  with assms have h: "h < length (objects s)"
    by (simp add: Handle_start_def split: if_splits)
  with assms(2) have "wiring_inv (spawn (objects s ! h) r s)"
    by (simp add: wiring_inv_spawn)
  with LogStart assms(1) h show ?thesis
    by (auto simp: wiring_inv_def Handle_start_def Let_def)
next
  case (LogFinish i)
  with assms show ?thesis
    by (auto simp: wiring_inv_def Handle_finish_def Let_def
          split: if_splits option.splits prod.splits)
qed

lemma wiring_inv_exec:
  "exec ops acts s = Some s' \<Longrightarrow> wiring_inv s \<Longrightarrow> wiring_inv s'"
  by (induction acts arbitrary: s) (auto split: option.splits dest: wiring_inv_step)

lemma wiring_inv_New: "wiring_inv (snd (New ops writer targets w))"
  by (simp add: wiring_inv_def New_def Let_def)

lemma spawn_no_targets: "no_targets (logTargets hv) \<Longrightarrow> spawn hv r s = s"
  by (auto simp: spawn_def no_targets_def split: option.splits)

lemma idle_inv_step:
  assumes "step ops a s = Some s'" and "idle_inv s"
  shows "idle_inv s'"
proof (cases a)
  case (Log h r)
  with assms show ?thesis
    by (auto simp: idle_inv_def Handle_def Let_def spawn_no_targets no_targets_nth
          split: if_splits prod.splits)
next
  case (DeriveAttrs h attrs)
  with assms show ?thesis
    by (auto simp: idle_inv_def WithAttrs_def Let_def no_targets_nth split: if_splits)
next
  case (DeriveGroup h name)
  with assms show ?thesis
    by (auto simp: idle_inv_def WithGroup_def Let_def no_targets_nth split: if_splits)
next
  case (RunSendLog i err)
  with assms show ?thesis
    by (auto simp: idle_inv_def sendLog_step_def)
next
  case (RunChanSend i)
  with assms show ?thesis
    by (auto simp: idle_inv_def chanSend_step_def)
next
  case (Consumer now)
  with assms show ?thesis
    by (auto simp: idle_inv_def consumer_step_def make_chan_def)
next
  case Decay
  with assms show ?thesis
    by (auto simp: idle_inv_def decay_step_def newTargetLogCounter_def get_def
          split: if_splits decay_pc.splits)
next
  case (LogStart h r)
  with assms show ?thesis
    by (auto simp: idle_inv_def Handle_start_def Let_def spawn_no_targets no_targets_nth
          split: if_splits)
next
  case (LogFinish i)
  with assms show ?thesis
    by (auto simp: idle_inv_def Handle_finish_def Let_def
          split: if_splits option.splits prod.splits)
qed

lemma idle_inv_exec:
  "exec ops acts s = Some s' \<Longrightarrow> idle_inv s \<Longrightarrow> idle_inv s'"
  by (induction acts arbitrary: s) (auto split: option.splits dest: idle_inv_step)

lemma idle_inv_New: "no_targets targets \<Longrightarrow> idle_inv (snd (New ops writer targets w))"
  by (simp add: idle_inv_def New_def Let_def)

subsection \<open>Handle and the outcomes of the sends\<close>

text \<open>
  The two halves of a call, run one after the other, are \<open>Handle\<close>, up to the slot the
  call used.
\<close>

lemma Handle_start_finish:
  "h < length (objects s) \<Longrightarrow>
   Option.bind (Handle_start ops h r s) (Handle_finish ops (length (calls s))) =
     map_option (\<lambda>(res, t). (res, t\<lparr>calls := calls s @ [None]\<rparr>)) (Handle ops h r s)"
  by (simp add: Handle_start_def Handle_finish_def Handle_def Let_def calls_spawn
        world_spawn objects_spawn split: prod.splits)

lemma Handle_finish_result:
  "Handle_finish ops i s = Some (res, t) \<Longrightarrow> call_inv i h r hb s \<Longrightarrow>
   res = fst (Handle_base ops hb r (world s))"
  by (auto simp: Handle_finish_def call_inv_def Let_def split: if_splits option.splits prod.splits)

lemma call_inv_step:
  assumes "step ops a s = Some s'" and "call_inv i h r hb s"
  shows "call_inv i h r hb s'"
proof (cases a)
  case (Log h' r')
  with assms show ?thesis
    by (auto simp: call_inv_def Handle_def Let_def spawn_def
          split: if_splits prod.splits option.splits)
next
  case (DeriveAttrs h' attrs)
  with assms show ?thesis
    by (auto simp: call_inv_def WithAttrs_def Let_def nth_append split: if_splits)
next
  case (DeriveGroup h' name)
  with assms show ?thesis
    by (auto simp: call_inv_def WithGroup_def Let_def nth_append split: if_splits)
next
  case (RunSendLog j err)
  with assms show ?thesis
    by (auto simp: call_inv_def sendLog_step_def split: if_splits goroutine.splits option.splits)
next
  case (RunChanSend j)
  with assms show ?thesis
    by (auto simp: call_inv_def chanSend_step_def Let_def split: if_splits goroutine.splits)
next
  case (Consumer now)
  have frame: "calls t = calls s \<and> objects t = objects s"
    if "Logger_Error ops h' now' pc msg args s = Some t" for h' now' pc msg args t
    using that
    by (auto simp: Logger_Error_def Enabled_def Handle_def Let_def calls_spawn objects_spawn
          split: if_splits option.splits bool.splits prod.splits)
  from Consumer assms show ?thesis
    by (auto simp: call_inv_def consumer_step_def Let_def
        dest!: frame
        split: if_splits consumer_pc.splits list.splits option.splits)
next
  case Decay
  with assms show ?thesis
    by (auto simp: call_inv_def decay_step_def split: if_splits decay_pc.splits)
next
  case (LogStart h' r')
  with assms show ?thesis
    by (auto simp: call_inv_def Handle_start_def Let_def spawn_def nth_append
          split: if_splits option.splits)
next
  case (LogFinish j)
  with assms show ?thesis
    by (auto simp: call_inv_def Handle_finish_def Let_def nth_list_update
          split: if_splits option.splits prod.splits)
qed

lemma call_inv_exec:
  "exec ops acts s = Some s' \<Longrightarrow> call_inv i h r hb s \<Longrightarrow> call_inv i h r hb s'"
  by (induction acts arbitrary: s) (auto split: option.splits dest: call_inv_step)

lemma call_inv_Handle_start:
  "Handle_start ops h r s = Some s' \<Longrightarrow>
   call_inv (length (calls s)) h r (handler (objects s ! h)) s'"
  by (auto simp: call_inv_def Handle_start_def Let_def calls_spawn objects_spawn
        split: if_splits)

text \<open>
  The value that \<^verbatim>\<open>Handle\<close> returns can depend on what the send of a target does for
  the same record. The two runs below start the same call of \<^verbatim>\<open>Handle\<close> on the same
  logger, whose writer has room for one entry. In the first the send fails, the error
  reaches the consumer and the consumer's \<^verbatim>\<open>logger.Error\<close> takes the room before line 75
  is reached: \<^verbatim>\<open>Handle\<close> returns the writer's error. In the second the send succeeds
  and \<^verbatim>\<open>Handle\<close> returns nil.
\<close>

theorem Handle_result_depends_on_sink_counterexample:
  "exec (short_ops 1)
     [LogStart 0 record0, RunSendLog 0 (Some ''down''), RunChanSend 0,
      Consumer (GoTime 1700000001 0), Consumer (GoTime 1700000001 0),
      Consumer (GoTime 1700000001 0)] logger2 =
     Some (logger2\<lparr>world := [([], error_record0)],
                    goroutines := [AtSendLog ''relic'' error_record0 0],
                    tLogCounter := \<lparr>counter = 1\<rparr>,
                    calls := [Some (0, record0)]\<rparr>) \<and>
   map_option fst (Handle_finish (short_ops 1) 0
     (logger2\<lparr>world := [([], error_record0)],
               goroutines := [AtSendLog ''relic'' error_record0 0],
               tLogCounter := \<lparr>counter = 1\<rparr>,
               calls := [Some (0, record0)]\<rparr>)) = Some (Some ''short write'') \<and>
   exec (short_ops 1) [LogStart 0 record0, RunSendLog 0 None] logger2 =
     Some (logger2\<lparr>calls := [Some (0, record0)]\<rparr>) \<and>
   map_option fst (Handle_finish (short_ops 1) 0 (logger2\<lparr>calls := [Some (0, record0)]\<rparr>)) =
     Some None"
  by (simp add: logger2_def short_ops_def New_def memory_ops_def error_record0_def LevelError_def
        pc_New_Error_def get_def increment_def newTargetLogCounter_def
        spawn_def make_chan_def word_sless_alt Let_def Handle_def Handle_start_def
        Handle_finish_def sendLog_step_def chanSend_step_def consumer_step_def
        Logger_Error_def Enabled_def remove_nth_def)

text \<open>
  C3, as the code has it. \<^verbatim>\<open>Handle\<close> never returns the error of a send: take any two
  runs that start the same call of \<^verbatim>\<open>Handle\<close> in the same state and then differ in any
  way (in what the sends of the targets return, for this record and for others, in the
  steps of the goroutines and of the consumer, in what else the application does). If the
  call returns in both, the value it returns is in each run the base handler's result for
  the record on the world that its line 75 meets. The two values are equal when the two
  worlds are, and when the base handler's result for the record does not depend on the
  world.
\<close>

theorem Handle_returns_base_result:
  assumes "exec ops (LogStart h r # acts1) s0 = Some s1"
    and "exec ops (LogStart h r # acts2) s0 = Some s2"
    and "Handle_finish ops (length (calls s0)) s1 = Some (res1, t1)"
    and "Handle_finish ops (length (calls s0)) s2 = Some (res2, t2)"
  shows "res1 = fst (Handle_base ops (handler (objects s0 ! h)) r (world s1)) \<and>
         res2 = fst (Handle_base ops (handler (objects s0 ! h)) r (world s2)) \<and>
         (world s1 = world s2 \<or>
          (\<forall>w w'. fst (Handle_base ops (handler (objects s0 ! h)) r w) =
                   fst (Handle_base ops (handler (objects s0 ! h)) r w'))
            \<longrightarrow> res1 = res2)"
proof -
  have run: "call_inv (length (calls s0)) h r (handler (objects s0 ! h)) s"
    if "exec ops (LogStart h r # acts) s0 = Some s" for acts s
  proof -
    from that obtain s' where start: "Handle_start ops h r s0 = Some s'"
      and rest: "exec ops acts s' = Some s"
      by (auto split: option.splits)
    from start have "call_inv (length (calls s0)) h r (handler (objects s0 ! h)) s'"
      by (rule call_inv_Handle_start)
    with rest show ?thesis by (rule call_inv_exec)
  qed
  from assms(3) run [OF assms(1)]
  have 1: "res1 = fst (Handle_base ops (handler (objects s0 ! h)) r (world s1))"
    by (rule Handle_finish_result)
  from assms(4) run [OF assms(2)]
  have 2: "res2 = fst (Handle_base ops (handler (objects s0 ! h)) r (world s2))"
    by (rule Handle_finish_result)
  from 1 2 show ?thesis by auto
qed

theorem Handle_returns_base_result_witness:
  "exec memory_ops
     [LogStart 0 record0, RunSendLog 0 (Some ''down''), RunChanSend 0,
      Consumer (GoTime 1700000001 0), Consumer (GoTime 1700000001 0),
      Consumer (GoTime 1700000001 0)] logger1 =
     Some (logger1\<lparr>world := [([], error_record0)],
                    goroutines := [AtSendLog ''relic'' error_record0 0],
                    tLogCounter := \<lparr>counter = 1\<rparr>,
                    calls := [Some (0, record0)]\<rparr>) \<and>
   exec memory_ops [LogStart 0 record0, RunSendLog 0 None] logger1 =
     Some (logger1\<lparr>calls := [Some (0, record0)]\<rparr>) \<and>
   Handle_finish memory_ops 0
     (logger1\<lparr>world := [([], error_record0)],
               goroutines := [AtSendLog ''relic'' error_record0 0],
               tLogCounter := \<lparr>counter = 1\<rparr>,
               calls := [Some (0, record0)]\<rparr>) =
     Some (None,
           logger1\<lparr>world := [([], error_record0), ([], record0)],
                    goroutines := [AtSendLog ''relic'' error_record0 0],
                    tLogCounter := \<lparr>counter = 1\<rparr>,
                    calls := [None]\<rparr>) \<and>
   Handle_finish memory_ops 0 (logger1\<lparr>calls := [Some (0, record0)]\<rparr>) =
     Some (None, logger1\<lparr>world := [([], record0)], calls := [None]\<rparr>)"
  using Handle_returns_base_result
    [of memory_ops 0 record0
        "[RunSendLog 0 (Some ''down''), RunChanSend 0,
          Consumer (GoTime 1700000001 0), Consumer (GoTime 1700000001 0),
          Consumer (GoTime 1700000001 0)]"
        logger1
        "logger1\<lparr>world := [([], error_record0)],
                  goroutines := [AtSendLog ''relic'' error_record0 0],
                  tLogCounter := \<lparr>counter = 1\<rparr>,
                  calls := [Some (0, record0)]\<rparr>"
        "[RunSendLog 0 None]"
        "logger1\<lparr>calls := [Some (0, record0)]\<rparr>"
        None
        "logger1\<lparr>world := [([], error_record0), ([], record0)],
                  goroutines := [AtSendLog ''relic'' error_record0 0],
                  tLogCounter := \<lparr>counter = 1\<rparr>,
                  calls := [None]\<rparr>"
        None
        "logger1\<lparr>world := [([], record0)], calls := [None]\<rparr>"]
  by (simp add: logger1_def New_def memory_ops_def error_record0_def LevelError_def
        pc_New_Error_def get_def increment_def newTargetLogCounter_def
        spawn_def make_chan_def word_sless_alt Let_def Handle_def Handle_start_def
        Handle_finish_def sendLog_step_def chanSend_step_def consumer_step_def
        Logger_Error_def Enabled_def remove_nth_def)

subsection \<open>The consumer\<close>

text \<open>
  C2. Let the consumer have received an error \<open>err\<close> (nil or not), and let it run its
  statements without a step of the decay goroutine in between. If the counter is above 5,
  the iteration ends at once: the error is dropped and nothing changes, the counter
  included. If the counter \<open>v\<close> is at most 5 and the error is not nil, the iteration calls
  \<^verbatim>\<open>logger.Error\<close> and increments: with a base handler that is enabled for the error level
  (the handler \<^verbatim>\<open>New\<close> makes is), the error record is passed to the base handler, which
  writes it, and the counter becomes \<open>v + 1\<close>, without overflow. (The record also goes to
  the targets, like every record: \<open>spawn\<close>.)
\<close>

theorem consumer_rate_limit:
  assumes "consumer s = CGot err"
  shows "(5 <s get (tLogCounter s) \<longrightarrow>
            exec ops [Consumer now] s = Some (s\<lparr>consumer := CRecv\<rparr>)) \<and>
         (get (tLogCounter s) \<le>s 5 \<and> err = Some e \<and> logger s < length (objects s) \<and>
          Enabled_base ops (handler (objects s ! logger s)) LevelError \<longrightarrow>
            (let hv = objects s ! logger s;
                 r = \<lparr>Time = now, Message = ''Error in custom handler'', Level = LevelError,
                      PC = pc_New_Error, Attrs = [(''error'', AError e)]\<rparr>
             in exec ops [Consumer now, Consumer now, Consumer now] s =
                  Some ((spawn hv r s)
                          \<lparr>world := snd (Handle_base ops (handler hv) r (world s)),
                            tLogCounter := increment (tLogCounter s),
                            consumer := CRecv\<rparr>)) \<and>
            sint (get (increment (tLogCounter s))) = sint (get (tLogCounter s)) + 1)"
proof (intro conjI impI)
  assume "5 <s get (tLogCounter s)"
  with assms show "exec ops [Consumer now] s = Some (s\<lparr>consumer := CRecv\<rparr>)"
    by (simp add: consumer_step_def)
next
  assume a: "get (tLogCounter s) \<le>s 5 \<and> err = Some e \<and> logger s < length (objects s) \<and>
          Enabled_base ops (handler (objects s ! logger s)) LevelError"
  then have le: "sint (counter (tLogCounter s)) \<le> 5"
    by (simp add: word_sle_eq get_def)
  then show "sint (get (increment (tLogCounter s))) = sint (get (tLogCounter s)) + 1"
    by (simp add: get_def increment_def sint_inc)
  from a have gate: "\<not> 5 <s get (tLogCounter s)"
    by (simp add: word_sle_eq word_sless_alt)
  from assms gate have 1: "step ops (Consumer now) s = Some (s\<lparr>consumer := CLog err\<rparr>)"
    by (simp add: consumer_step_def)
  let ?r = "\<lparr>Time = now, Message = ''Error in custom handler'', Level = LevelError,
                      PC = pc_New_Error, Attrs = [(''error'', AError e)]\<rparr>"
  let ?hv = "objects s ! logger s"
  let ?s2 = "(spawn ?hv ?r s)\<lparr>world := snd (Handle_base ops (handler ?hv) ?r (world s)),
                consumer := CInc\<rparr>"
  from a have 2: "step ops (Consumer now) (s\<lparr>consumer := CLog err\<rparr>) = Some ?s2"
    by (simp add: consumer_step_def Logger_Error_def Enabled_def Handle_Some spawn_def
          split: option.splits)
  have 3: "step ops (Consumer now) ?s2 =
             Some ((spawn ?hv ?r s)\<lparr>world := snd (Handle_base ops (handler ?hv) ?r (world s)),
                     tLogCounter := increment (tLogCounter s), consumer := CRecv\<rparr>)"
    by (simp add: consumer_step_def spawn_def split: option.splits)
  from 1 2 3
  show "let hv = objects s ! logger s;
                 r = \<lparr>Time = now, Message = ''Error in custom handler'', Level = LevelError,
                      PC = pc_New_Error, Attrs = [(''error'', AError e)]\<rparr>
             in exec ops [Consumer now, Consumer now, Consumer now] s =
                  Some ((spawn hv r s)
                          \<lparr>world := snd (Handle_base ops (handler hv) r (world s)),
                            tLogCounter := increment (tLogCounter s),
                            consumer := CRecv\<rparr>)"
    by (simp add: Let_def)
qed


theorem consumer_rate_limit_witness:
  "exec memory_ops [Log 0 record0, RunSendLog 0 (Some ''down''), RunChanSend 0] logger1 =
     Some (logger1\<lparr>world := [([], record0)], consumer := CGot (Some ''down'')\<rparr>) \<and>
   get (tLogCounter (logger1\<lparr>world := [([], record0)], consumer := CGot (Some ''down'')\<rparr>)) \<le>s 5 \<and>
   exec memory_ops [Consumer (GoTime 1700000001 0), Consumer (GoTime 1700000001 0),
                    Consumer (GoTime 1700000001 0)]
     (logger1\<lparr>world := [([], record0)], consumer := CGot (Some ''down'')\<rparr>) =
     Some (logger1\<lparr>world := [([], record0), ([], error_record0)],
                    goroutines := [AtSendLog ''relic'' error_record0 0],
                    tLogCounter := \<lparr>counter = 1\<rparr>\<rparr>) \<and>
   5 <s get (tLogCounter (logger1\<lparr>consumer := CGot (Some ''down''), tLogCounter := \<lparr>counter = 6\<rparr>\<rparr>)) \<and>
   exec memory_ops [Consumer (GoTime 1700000001 0)]
     (logger1\<lparr>consumer := CGot (Some ''down''), tLogCounter := \<lparr>counter = 6\<rparr>\<rparr>) =
     Some (logger1\<lparr>tLogCounter := \<lparr>counter = 6\<rparr>\<rparr>)"
proof -
  have reach:
    "exec memory_ops [Log 0 record0, RunSendLog 0 (Some ''down''), RunChanSend 0] logger1 =
       Some (logger1\<lparr>world := [([], record0)], consumer := CGot (Some ''down'')\<rparr>)"
    by (simp add: logger1_def New_def memory_ops_def spawn_def make_chan_def Handle_def
          sendLog_step_def chanSend_step_def remove_nth_def)
  show ?thesis
    using reach
      consumer_rate_limit
        [of "logger1\<lparr>world := [([], record0)], consumer := CGot (Some ''down'')\<rparr>"
            "Some ''down''" memory_ops "GoTime 1700000001 0" "''down''"]
      consumer_rate_limit
        [of "logger1\<lparr>consumer := CGot (Some ''down''), tLogCounter := \<lparr>counter = 6\<rparr>\<rparr>"
            "Some ''down''" memory_ops "GoTime 1700000001 0" "''down''"]
    by (simp add: logger1_def New_def memory_ops_def error_record0_def LevelError_def
          pc_New_Error_def get_def increment_def newTargetLogCounter_def spawn_def
          word_sle_eq word_sless_alt Let_def)
qed

subsection \<open>The decay of the counter\<close>

text \<open>
  C4. One iteration of the decay loop, started with a positive counter \<open>v\<close> and run without
  a step of the consumer in between, leaves \<open>v - 1\<close> and changes nothing else; started
  with the counter at 0 it changes nothing. And in every state that the logger reaches from
  \<^verbatim>\<open>New\<close>, under every interleaving of the application, the targets, the consumer and
  the decay goroutine, the counter is not negative, and it is positive whenever the decay
  goroutine is about to decrement. (The length of the sleep is not modelled.)
\<close>

theorem decay_counter_never_negative:
  "(decay s = DCheck \<and> 0 <s get (tLogCounter s) \<longrightarrow>
      exec ops [Decay, Decay, Decay] s = Some (s\<lparr>tLogCounter := decrement (tLogCounter s)\<rparr>) \<and>
      sint (get (decrement (tLogCounter s))) = sint (get (tLogCounter s)) - 1) \<and>
   (decay s = DCheck \<and> get (tLogCounter s) = 0 \<longrightarrow> exec ops [Decay, Decay] s = Some s) \<and>
   (exec ops acts (snd (New ops writer targets w)) = Some t \<longrightarrow>
      0 \<le>s get (tLogCounter t) \<and> (decay t = DDec \<longrightarrow> 0 <s get (tLogCounter t)))"
proof (intro conjI impI)
  assume a: "decay s = DCheck \<and> 0 <s get (tLogCounter s)"
  then have "s\<lparr>tLogCounter := decrement (tLogCounter s), decay := DCheck\<rparr> =
             s\<lparr>tLogCounter := decrement (tLogCounter s)\<rparr>"
    by simp
  with a show "exec ops [Decay, Decay, Decay] s = Some (s\<lparr>tLogCounter := decrement (tLogCounter s)\<rparr>)"
    by (simp add: decay_step_def)
  from a show "sint (get (decrement (tLogCounter s))) = sint (get (tLogCounter s)) - 1"
    by (simp add: get_def decrement_def word_sless_alt sint_dec)
next
  assume a: "decay s = DCheck \<and> get (tLogCounter s) = 0"
  then have "s\<lparr>decay := DCheck\<rparr> = s" by simp
  with a show "exec ops [Decay, Decay] s = Some s"
    by (simp add: decay_step_def)
next
  assume "exec ops acts (snd (New ops writer targets w)) = Some t"
  then have inv: "counter_inv t"
    by (rule counter_inv_exec) (rule counter_inv_New)
  then show "0 \<le>s get (tLogCounter t)"
    by (simp add: counter_inv_def Let_def word_sle_eq)
  assume "decay t = DDec"
  with inv show "0 <s get (tLogCounter t)"
    by (simp add: counter_inv_def Let_def word_sless_alt)
qed

theorem decay_counter_never_negative_witness:
  "decay (logger1\<lparr>tLogCounter := \<lparr>counter = 1\<rparr>\<rparr>) = DCheck \<and>
   0 <s get (tLogCounter (logger1\<lparr>tLogCounter := \<lparr>counter = 1\<rparr>\<rparr>)) \<and>
   exec memory_ops [Decay, Decay, Decay] (logger1\<lparr>tLogCounter := \<lparr>counter = 1\<rparr>\<rparr>) = Some logger1 \<and>
   get (tLogCounter logger1) = 0 \<and>
   exec memory_ops [Decay, Decay] logger1 = Some logger1 \<and>
   exec memory_ops
     [Log 0 record0, RunSendLog 0 (Some ''down''), RunChanSend 0,
      Consumer (GoTime 1700000001 0), Consumer (GoTime 1700000001 0),
      Consumer (GoTime 1700000001 0), Decay]
     (snd (New memory_ops None (Some [''relic'']) [])) =
     Some (logger1\<lparr>world := [([], record0), ([], error_record0)],
                    goroutines := [AtSendLog ''relic'' error_record0 0],
                    tLogCounter := \<lparr>counter = 1\<rparr>, decay := DDec\<rparr>) \<and>
   0 <s get (tLogCounter (logger1\<lparr>world := [([], record0), ([], error_record0)],
                    goroutines := [AtSendLog ''relic'' error_record0 0],
                    tLogCounter := \<lparr>counter = 1\<rparr>, decay := DDec\<rparr>))"
  using decay_counter_never_negative
          [of "logger1\<lparr>tLogCounter := \<lparr>counter = 1\<rparr>\<rparr>" memory_ops
              "[Log 0 record0, RunSendLog 0 (Some ''down''), RunChanSend 0,
                Consumer (GoTime 1700000001 0), Consumer (GoTime 1700000001 0),
                Consumer (GoTime 1700000001 0), Decay]"
              None "Some [''relic'']" "[]"
              "logger1\<lparr>world := [([], record0), ([], error_record0)],
                    goroutines := [AtSendLog ''relic'' error_record0 0],
                    tLogCounter := \<lparr>counter = 1\<rparr>, decay := DDec\<rparr>"]
        decay_counter_never_negative [of logger1 memory_ops "[]" None "Some [''relic'']" "[]" logger1]
  by (simp add: logger1_def New_def memory_ops_def error_record0_def LevelError_def
        pc_New_Error_def get_def increment_def decrement_def newTargetLogCounter_def
        spawn_def make_chan_def word_sless_alt Let_def Handle_def sendLog_step_def
        chanSend_step_def consumer_step_def decay_step_def Logger_Error_def Enabled_def
        remove_nth_def)

subsection \<open>A logger without targets\<close>

text \<open>
  C9. Let the logger be made with no targets (a nil or an empty slice). In every state it
  reaches, whatever the application and the goroutines do: no goroutine of \<^verbatim>\<open>Handle\<close>
  exists, so no \<^verbatim>\<open>SendLog\<close> and no send on the channel can take place; the channel is
  empty and the consumer waits at its receive and cannot take a step; the counter is 0;
  and a call of \<^verbatim>\<open>Handle\<close> changes nothing but what the base handler writes.
\<close>

theorem zero_sinks_no_error_traffic:
  assumes "no_targets targets"
    and "exec ops acts (snd (New ops writer targets w)) = Some s"
  shows "goroutines s = [] \<and> consumer s = CRecv \<and> channels s = [make_chan 0] \<and>
         tLogCounter s = newTargetLogCounter \<and>
         (\<forall>i err. step ops (RunSendLog i err) s = None) \<and>
         (\<forall>i. step ops (RunChanSend i) s = None) \<and>
         (\<forall>now. step ops (Consumer now) s = None) \<and>
         (\<forall>h r. h < length (objects s) \<longrightarrow>
            Handle ops h r s =
              Some (fst (Handle_base ops (handler (objects s ! h)) r (world s)),
                    s\<lparr>world := snd (Handle_base ops (handler (objects s ! h)) r (world s))\<rparr>))"
proof -
  from assms have inv: "idle_inv s"
    by (auto intro: idle_inv_exec idle_inv_New)
  then have "\<forall>h r. h < length (objects s) \<longrightarrow> spawn (objects s ! h) r s = s"
    by (simp add: idle_inv_def spawn_no_targets no_targets_nth)
  then have "\<forall>h r. h < length (objects s) \<longrightarrow>
            Handle ops h r s =
              Some (fst (Handle_base ops (handler (objects s ! h)) r (world s)),
                    s\<lparr>world := snd (Handle_base ops (handler (objects s ! h)) r (world s))\<rparr>)"
    by (simp add: Handle_Some)
  moreover from inv have "\<forall>now. step ops (Consumer now) s = None"
    by (simp add: idle_inv_def consumer_step_def make_chan_def)
  moreover from inv have "\<forall>i. step ops (RunChanSend i) s = None"
    by (simp add: idle_inv_def chanSend_step_def)
  moreover from inv have "\<forall>i err. step ops (RunSendLog i err) s = None"
    by (simp add: idle_inv_def sendLog_step_def)
  ultimately show ?thesis using inv by (simp add: idle_inv_def)
qed

theorem zero_sinks_no_error_traffic_witness:
  "no_targets (None :: string list option) \<and>
   exec memory_ops [Log 0 record0, DeriveGroup 0 ''db'', Decay, Log 1 record1]
     (snd (New memory_ops None None [])) =
     Some (logger0\<lparr>objects := [\<lparr>handler = [], logTargets = None, errorChannel = 0\<rparr>,
                                \<lparr>handler = [''db''], logTargets = None, errorChannel = 0\<rparr>],
                    world := [([], record0), ([''db''], record1)],
                    decay := DSleep\<rparr>) \<and>
   step memory_ops (Consumer (GoTime 1700000001 0))
     (logger0\<lparr>objects := [\<lparr>handler = [], logTargets = None, errorChannel = 0\<rparr>,
                                \<lparr>handler = [''db''], logTargets = None, errorChannel = 0\<rparr>],
                    world := [([], record0), ([''db''], record1)],
                    decay := DSleep\<rparr>) = None"
  using zero_sinks_no_error_traffic
          [of None memory_ops "[Log 0 record0, DeriveGroup 0 ''db'', Decay, Log 1 record1]" None "[]"
              "logger0\<lparr>objects := [\<lparr>handler = [], logTargets = None, errorChannel = 0\<rparr>,
                                \<lparr>handler = [''db''], logTargets = None, errorChannel = 0\<rparr>],
                    world := [([], record0), ([''db''], record1)],
                    decay := DSleep\<rparr>"]
  by (simp add: logger0_def New_def memory_ops_def no_targets_def get_def
        newTargetLogCounter_def spawn_def make_chan_def word_sless_alt Let_def Handle_def
        WithGroup_def decay_step_def)

subsection \<open>The error channel\<close>

text \<open>
  The channel that \<^verbatim>\<open>New\<close> makes has capacity 0 and the goroutines send on it with a
  plain send statement. In the run below the consumer has taken a first error and has not
  yet come back to its receive; the goroutine of the second record holds an error to send,
  and its send cannot be taken: it is blocked.
\<close>

theorem error_channel_unbuffered_counterexample:
  "cap (channels logger1 ! errorChannel (objects logger1 ! 0)) = 0 \<and>
   exec memory_ops
     [Log 0 record0, RunSendLog 0 (Some ''down''), RunChanSend 0,
      Log 0 record0, RunSendLog 0 (Some ''down'')] logger1 =
     Some (logger1\<lparr>world := [([], record0), ([], record0)],
                    goroutines := [AtChanSend ''down'' 0],
                    consumer := CGot (Some ''down'')\<rparr>) \<and>
   step memory_ops (RunChanSend 0)
     (logger1\<lparr>world := [([], record0), ([], record0)],
                    goroutines := [AtChanSend ''down'' 0],
                    consumer := CGot (Some ''down'')\<rparr>) = None"
  by (simp add: logger1_def New_def memory_ops_def spawn_def make_chan_def Let_def Handle_def
        sendLog_step_def chanSend_step_def remove_nth_def)

text \<open>
  C5, as the code has it. In every state reachable from \<^verbatim>\<open>New\<close> the error channel is
  the one channel of the logger, it has capacity 0 and buffers nothing, and the send of a
  goroutine that holds an error can be taken exactly when the consumer waits at its
  receive, to which the error is then handed; otherwise the goroutine is blocked. The send
  is made by the goroutine and not by \<^verbatim>\<open>Handle\<close>, which returns in every such state.
\<close>

theorem error_channel_unbuffered:
  assumes "exec ops acts (snd (New ops writer targets w)) = Some s"
  shows "channels s = [make_chan 0] \<and> cap (make_chan 0) = 0 \<and>
         (\<forall>i e ch. i < length (goroutines s) \<and> goroutines s ! i = AtChanSend e ch \<longrightarrow>
            step ops (RunChanSend i) s =
              (if consumer s = CRecv
               then Some (s\<lparr>goroutines := remove_nth i (goroutines s), consumer := CGot (Some e)\<rparr>)
               else None)) \<and>
         (\<forall>h r. h < length (objects s) \<longrightarrow> Handle ops h r s \<noteq> None)"
proof -
  from assms have inv: "wiring_inv s"
    by (rule wiring_inv_exec) (rule wiring_inv_New)
  have "step ops (RunChanSend i) s =
          (if consumer s = CRecv
           then Some (s\<lparr>goroutines := remove_nth i (goroutines s), consumer := CGot (Some e)\<rparr>)
           else None)"
    if "i < length (goroutines s)" and "goroutines s ! i = AtChanSend e ch" for i e ch
  proof -
    from inv that(1) have "chan_of (goroutines s ! i) = 0"
      by (simp add: wiring_inv_def chan_of_nth)
    with that(2) have "ch = 0" by simp
    with inv that show ?thesis
      by (simp add: wiring_inv_def chanSend_step_def make_chan_def)
  qed
  with inv show ?thesis
    by (simp add: wiring_inv_def make_chan_def Handle_Some)
qed

theorem error_channel_unbuffered_witness:
  "exec memory_ops
     [Log 0 record0, RunSendLog 0 (Some ''down''), RunChanSend 0,
      Log 0 record0, RunSendLog 0 (Some ''down''),
      Consumer (GoTime 1700000001 0), Consumer (GoTime 1700000001 0),
      Consumer (GoTime 1700000001 0)] (snd (New memory_ops None (Some [''relic'']) [])) =
     Some (logger1\<lparr>world := [([], record0), ([], record0), ([], error_record0)],
                    goroutines := [AtChanSend ''down'' 0, AtSendLog ''relic'' error_record0 0],
                    tLogCounter := \<lparr>counter = 1\<rparr>\<rparr>) \<and>
   step memory_ops (RunChanSend 0)
     (logger1\<lparr>world := [([], record0), ([], record0), ([], error_record0)],
                    goroutines := [AtChanSend ''down'' 0, AtSendLog ''relic'' error_record0 0],
                    tLogCounter := \<lparr>counter = 1\<rparr>\<rparr>) =
     Some (logger1\<lparr>world := [([], record0), ([], record0), ([], error_record0)],
                    goroutines := [AtSendLog ''relic'' error_record0 0],
                    tLogCounter := \<lparr>counter = 1\<rparr>,
                    consumer := CGot (Some ''down'')\<rparr>)"
  using error_channel_unbuffered
          [of memory_ops
              "[Log 0 record0, RunSendLog 0 (Some ''down''), RunChanSend 0,
                Log 0 record0, RunSendLog 0 (Some ''down''),
                Consumer (GoTime 1700000001 0), Consumer (GoTime 1700000001 0),
                Consumer (GoTime 1700000001 0)]"
              None "Some [''relic'']" "[]"
              "logger1\<lparr>world := [([], record0), ([], record0), ([], error_record0)],
                    goroutines := [AtChanSend ''down'' 0, AtSendLog ''relic'' error_record0 0],
                    tLogCounter := \<lparr>counter = 1\<rparr>\<rparr>"]
  by (simp add: logger1_def New_def memory_ops_def error_record0_def LevelError_def
        pc_New_Error_def get_def increment_def newTargetLogCounter_def
        spawn_def make_chan_def word_sless_alt Let_def Handle_def sendLog_step_def
        chanSend_step_def consumer_step_def Logger_Error_def Enabled_def remove_nth_def)

end
